theory Spec2Isabelle
  imports Main
begin

section \<open>The request coalescer of CaseStudy/request\_coalesce.ts\<close>

text \<open>
  The file defines two classes. \<open>Continuation\<close> is a promise that keeps its own
  resolve and reject functions and the call stack of its creation; \<open>RequestCoalescer\<close>
  holds a boolean \<open>lock\<close> and an array \<open>continuationQueue\<close>. Both are mutable objects
  shared by reference (the queue and the promise returned to a caller name the same
  continuation, every continuation of a generation is handed the same error object), so
  the embedding keeps an explicit store: continuations live in a list indexed by their
  address, Error objects in a function from addresses.

  JavaScript runs one synchronous segment at a time. \<open>request()\<close> has two segments: the
  one from its call to its first \<open>await\<close> (or to its \<open>return\<close>, for a follower)
  and the one that runs when the awaited operation has completed. Each is one function on
  the store. A method that can raise an exception returns a sum: the exception with the
  store as it was left, or the store after a normal return.
\<close>

subsection \<open>Strings: \<open>split("\n")\<close>, \<open>slice(2)\<close>, \<open>join("\n")\<close>\<close>

definition nl :: char where
  "nl = CHR 0x0A"

text \<open>\<open>s.split("\n")\<close>: the pieces between line feeds; never an empty array.\<close>

fun split_nl :: "string \<Rightarrow> string list" where
  "split_nl [] = [[]]"
| "split_nl (c # cs) =
     (if c = nl then [] # split_nl cs
      else (case split_nl cs of
              [] \<Rightarrow> [[c]]
            | l # ls \<Rightarrow> (c # l) # ls))"

text \<open>\<open>a.join("\n")\<close> on an array of strings.\<close>

fun join_nl :: "string list \<Rightarrow> string" where
  "join_nl [] = []"
| "join_nl [x] = x"
| "join_nl (x # y # ys) = x @ nl # join_nl (y # ys)"

text \<open>\<open>join\<close> writes an element that is \<open>undefined\<close> as the empty string.\<close>

definition join_undef :: "string option list \<Rightarrow> string" where
  "join_undef xs = join_nl (map (\<lambda>x. case x of None \<Rightarrow> [] | Some s \<Rightarrow> s) xs)"

text \<open>\<open>a[0]\<close>: \<open>undefined\<close> on an empty array.\<close>

definition index0 :: "'a list \<Rightarrow> 'a option" where
  "index0 xs = (case xs of [] \<Rightarrow> None | x # _ \<Rightarrow> Some x)"

subsection \<open>Values, errors and promise states\<close>

type_synonym addr = nat

text \<open>
  A thrown value is \<open>unknown\<close> to the code, which only asks \<open>error instanceof Error\<close>:
  it is an Error object (a reference into the store) or any other value.
\<close>

datatype 'v thrown = ErrorObj addr | NonError 'v

text \<open>
  The fields of an Error object that the code reads or writes. The method that writes
  \<open>stack\<close> is in a class body, which is strict code: there an assignment to a property
  that cannot be written (the Error is frozen, or \<open>stack\<close> is read-only) raises a
  TypeError. \<open>stackWritable\<close> says whether the assignment succeeds.
\<close>

record js_error =
  message :: string
  stack :: "string option"
  stackWritable :: bool

datatype js_exception = TypeError

text \<open>
  What a caller passes to a promise's resolve function: a plain value, or a promise-like
  object (another one than the promise itself), which the promise then follows.
\<close>

datatype 'v resolution = Plain 'v | Thenable addr

datatype 'v promise_state =
  Pending | Adopting addr | Fulfilled 'v | Rejected "'v thrown"

text \<open>
  The resolve and reject functions that the Promise constructor hands to its executor
  act once: after either has been called, both do nothing.
\<close>

fun promise_resolve :: "'v promise_state \<Rightarrow> 'v resolution \<Rightarrow> 'v promise_state" where
  "promise_resolve Pending (Plain v) = Fulfilled v"
| "promise_resolve Pending (Thenable t) = Adopting t"
| "promise_resolve st _ = st"

fun promise_reject :: "'v promise_state \<Rightarrow> 'v thrown \<Rightarrow> 'v promise_state" where
  "promise_reject Pending e = Rejected e"
| "promise_reject st _ = st"

subsection \<open>The store\<close>

record 'v continuation =
  promiseState :: "'v promise_state"
  initialCallStack :: "string option"

text \<open>What one call of a continuation's resume method was given.\<close>

datatype 'v resumption = ByReturning "'v resolution" | ByThrowing "'v thrown"

text \<open>
  \<open>lock\<close> and \<open>continuationQueue\<close> are the two fields of the coalescer; \<open>conts\<close> and
  \<open>errors\<close> are the objects they refer to. The last two fields are history only, read by
  no operation: \<open>invocations\<close> counts the calls of \<open>someFetchRequest\<close>, \<open>resumed\<close>
  lists the calls of the continuations' resume methods in the order they were made.
\<close>

record 'v world =
  lock :: bool
  continuationQueue :: "addr list"
  conts :: "'v continuation list"
  errors :: "addr \<Rightarrow> js_error"
  invocations :: nat
  resumed :: "(addr \<times> 'v resumption) list"

text \<open>
  A method that may raise: \<open>Inr\<close> the store after a normal return, \<open>Inl\<close> the
  exception and the store at the moment it was raised.
\<close>

type_synonym 'v completion = "(js_exception \<times> 'v world) + 'v world"

definition state_of :: "'v completion \<Rightarrow> 'v world" where
  "state_of r = (case r of Inl xw \<Rightarrow> snd xw | Inr w \<Rightarrow> w)"

subsection \<open>class Continuation\<close>

text \<open>
  \<open>new Continuation()\<close> with the default executor, which does nothing: a pending promise.
  \<open>raw\<close> is \<open>Error().stack\<close> at the place of creation, which the constructor cuts to
  \<open>raw?.split("\n").slice(2).join("\n")\<close>. The new object's address is returned.
\<close>

definition captureStack :: "string option \<Rightarrow> string option" where
  "captureStack raw = map_option (\<lambda>s. join_nl (drop 2 (split_nl s))) raw"

definition new_Continuation :: "string option \<Rightarrow> 'v world \<Rightarrow> addr \<times> 'v world" where
  "new_Continuation raw w =
     (length (conts w),
      w\<lparr>conts := conts w @ [\<lparr>promiseState = Pending, initialCallStack = captureStack raw\<rparr>]\<rparr>)"

text \<open>
  The effect of the stored \<open>$_resolve\<close> or \<open>$_reject\<close> on the promise that the
  continuation is: the state of the object at address \<open>c\<close> is replaced.
\<close>

definition set_state :: "addr \<Rightarrow> 'v promise_state \<Rightarrow> 'v world \<Rightarrow> 'v world" where
  "set_state c st w = w\<lparr>conts := (conts w)[c := (conts w ! c)\<lparr>promiseState := st\<rparr>]\<rparr>"

definition Continuation_resumeByReturning ::
  "addr \<Rightarrow> 'v resolution \<Rightarrow> 'v world \<Rightarrow> 'v world" where
  "Continuation_resumeByReturning c val w =
     set_state c (promise_resolve (promiseState (conts w ! c)) val)
       (w\<lparr>resumed := resumed w @ [(c, ByReturning val)]\<rparr>)"

text \<open>
  \<open>error.stack = [error.stack?.split("\n")[0], this.initialCallStack].join("\n")\<close>
  for an Error object, then \<open>this.$_reject(error)\<close> for every argument. When the
  assignment raises, the method is left before \<open>$_reject\<close> is called and nothing has
  been written.
\<close>

definition restack :: "string option \<Rightarrow> string option \<Rightarrow> string" where
  "restack old initial =
     join_undef [(case old of None \<Rightarrow> None | Some s \<Rightarrow> index0 (split_nl s)), initial]"

definition Continuation_resumeByThrowing ::
  "addr \<Rightarrow> 'v thrown \<Rightarrow> 'v world \<Rightarrow> 'v completion" where
  "Continuation_resumeByThrowing c error w =
     (let w0 = w\<lparr>resumed := resumed w @ [(c, ByThrowing error)]\<rparr>
      in case error of
           ErrorObj a \<Rightarrow>
             if stackWritable (errors w0 a)
             then (let w1 = w0\<lparr>errors := (errors w0)
                         (a := (errors w0 a)
                            \<lparr>stack := Some (restack (stack (errors w0 a))
                                                    (initialCallStack (conts w0 ! c)))\<rparr>)\<rparr>
                   in Inr (set_state c (promise_reject (promiseState (conts w1 ! c)) error) w1))
             else Inl (TypeError, w0)
         | NonError _ \<Rightarrow>
             Inr (set_state c (promise_reject (promiseState (conts w0 ! c)) error) w0))"

subsection \<open>class RequestCoalescer\<close>

definition new_RequestCoalescer :: "(addr \<Rightarrow> js_error) \<Rightarrow> 'v world" where
  "new_RequestCoalescer errs =
     \<lparr>lock = False, continuationQueue = [], conts = [], errors = errs,
      invocations = 0, resumed = []\<rparr>"

definition coalesce :: "string option \<Rightarrow> 'v world \<Rightarrow> addr \<times> 'v world" where
  "coalesce raw w =
     (let (cont, w1) = new_Continuation raw w
      in (cont, w1\<lparr>continuationQueue := continuationQueue w1 @ [cont]\<rparr>))"

definition RequestCoalescer_resumeByReturning :: "'v \<Rightarrow> 'v world \<Rightarrow> 'v world" where
  "RequestCoalescer_resumeByReturning result w =
     (fold (\<lambda>cont. Continuation_resumeByReturning cont (Plain result))
           (continuationQueue w) w)\<lparr>continuationQueue := []\<rparr>"

text \<open>
  \<open>forEach\<close> with a callback that may raise: the exception leaves the loop, and the
  statement after the loop is not reached. (\<open>resumeByReturning\<close> above cannot raise,
  so its loop is a plain \<open>fold\<close>.)
\<close>

fun forEach ::
  "(addr \<Rightarrow> 'v world \<Rightarrow> 'v completion) \<Rightarrow> addr list \<Rightarrow> 'v world \<Rightarrow> 'v completion" where
  "forEach f [] w = Inr w"
| "forEach f (cont # rest) w =
     (case f cont w of
        Inl xw \<Rightarrow> Inl xw
      | Inr w1 \<Rightarrow> forEach f rest w1)"

definition RequestCoalescer_resumeByThrowing ::
  "'v thrown \<Rightarrow> 'v world \<Rightarrow> 'v completion" where
  "RequestCoalescer_resumeByThrowing e w =
     (case forEach (\<lambda>cont. Continuation_resumeByThrowing cont e) (continuationQueue w) w of
        Inl xw \<Rightarrow> Inl xw
      | Inr w1 \<Rightarrow> Inr (w1\<lparr>continuationQueue := []\<rparr>))"

text \<open>
  The first segment of \<open>request()\<close>. A follower's call returns its new continuation, so
  the promise of that call settles as the continuation does. A leader sets the lock, calls
  \<open>someFetchRequest()\<close> and is suspended at the \<open>await\<close>.
\<close>

datatype call = Leader | Follower addr

definition request :: "string option \<Rightarrow> 'v world \<Rightarrow> call \<times> 'v world" where
  "request raw w =
     (if lock w then (let (cont, w1) = coalesce raw w in (Follower cont, w1))
      else (Leader, w\<lparr>lock := True, invocations := invocations w + 1\<rparr>))"

text \<open>
  The leader's second segment, run when the awaited operation (the fetch and the decoding
  of its payload, neither of which touches the coalescer) has completed: the \<open>try\<close>
  branch after a success, the \<open>catch\<close> branch after a failure, the \<open>finally\<close>
  block after both. The result is what the leader's own call delivers. An exception raised
  by \<open>this.resumeByThrowing(e)\<close> inside \<open>catch\<close> skips \<open>throw e\<close>: the
  \<open>finally\<close> block still runs, and the call rejects with that exception.
\<close>

datatype 'v outcome = Success 'v | Failure "'v thrown"

datatype 'v delivered = Unsettled | Returned 'v | Threw "'v thrown" | Raised js_exception

fun request_settle :: "'v outcome \<Rightarrow> 'v world \<Rightarrow> 'v delivered \<times> 'v world" where
  "request_settle (Success payload) w =
     (let w1 = RequestCoalescer_resumeByReturning payload w
      in (Returned payload, w1\<lparr>lock := False\<rparr>))"
| "request_settle (Failure e) w =
     (case RequestCoalescer_resumeByThrowing e w of
        Inr w1 \<Rightarrow> (Threw e, w1\<lparr>lock := False\<rparr>)
      | Inl (x, w1) \<Rightarrow> (Raised x, w1\<lparr>lock := False\<rparr>))"

text \<open>Several calls of \<open>request()\<close> one after the other, no completion in between.\<close>

fun requests :: "string option list \<Rightarrow> 'v world \<Rightarrow> call list \<times> 'v world" where
  "requests [] w = ([], w)"
| "requests (raw # raws) w =
     (let (h, w1) = request raw w;
          (hs, w2) = requests raws w1
      in (h # hs, w2))"

text \<open>What the promise of a call delivers, the leader's own result being \<open>r\<close>.\<close>

definition observe :: "'v promise_state \<Rightarrow> 'v delivered" where
  "observe st = (case st of Fulfilled v \<Rightarrow> Returned v | Rejected e \<Rightarrow> Threw e
                 | _ \<Rightarrow> Unsettled)"

definition delivers :: "'v world \<Rightarrow> 'v delivered \<Rightarrow> call \<Rightarrow> 'v delivered" where
  "delivers w r h =
     (case h of Leader \<Rightarrow> r | Follower c \<Rightarrow> observe (promiseState (conts w ! c)))"

text \<open>How a continuation is resumed with an outcome, and what it then delivers.\<close>

definition resumption_of :: "'v outcome \<Rightarrow> 'v resumption" where
  "resumption_of out = (case out of Success p \<Rightarrow> ByReturning (Plain p)
                        | Failure e \<Rightarrow> ByThrowing e)"

definition delivered_of :: "'v outcome \<Rightarrow> 'v delivered" where
  "delivered_of out = (case out of Success p \<Rightarrow> Returned p | Failure e \<Rightarrow> Threw e)"

text \<open>
  The states the class can be in: the queue holds distinct pending continuations of the
  store.
\<close>

definition wf_world :: "'v world \<Rightarrow> bool" where
  "wf_world w \<longleftrightarrow>
     list_all (\<lambda>c. c < length (conts w) \<and> promiseState (conts w ! c) = Pending)
              (continuationQueue w)
     \<and> distinct (continuationQueue w)"

text \<open>Whether \<open>resumeByThrowing\<close> can write the trace of what was thrown.\<close>

definition rewritable :: "'v world \<Rightarrow> 'v thrown \<Rightarrow> bool" where
  "rewritable w e = (case e of ErrorObj a \<Rightarrow> stackWritable (errors w a) | NonError _ \<Rightarrow> True)"

definition settles :: "'v world \<Rightarrow> 'v outcome \<Rightarrow> bool" where
  "settles w out = (case out of Success _ \<Rightarrow> True | Failure e \<Rightarrow> rewritable w e)"

subsection \<open>A generation with two followers\<close>

text \<open>
  The demonstration at the end of the source file: threads call \<open>request()\<close> on one
  fresh coalescer while the first call is in flight. Here there are three of them; the
  second and the third become followers. \<open>demo_raws\<close> gives, for each call,
  \<open>Error().stack\<close> as the Continuation constructor would see it in that call.
\<close>

definition demo_errors :: "addr \<Rightarrow> js_error" where
  "demo_errors a =
     \<lparr>message = ''boom'', stack = Some ''Error: boom\<newline>    at someFetchRequest'',
      stackWritable = True\<rparr>"

definition demo_raws :: "string option list" where
  "demo_raws =
     [Some ''Error\<newline>    at new Continuation\<newline>    at coalesce\<newline>    at thread1'',
      Some ''Error\<newline>    at new Continuation\<newline>    at coalesce\<newline>    at thread2'',
      Some ''Error\<newline>    at new Continuation\<newline>    at coalesce\<newline>    at thread3'']"

definition demo_free :: "string world" where
  "demo_free = new_RequestCoalescer demo_errors"

definition demo_busy :: "string world" where
  "demo_busy = snd (requests demo_raws demo_free)"

definition demo_failed :: "string world" where
  "demo_failed = snd (request_settle (Failure (ErrorObj 0)) demo_busy)"

text \<open>
  The same generation when the operation fails with an Error whose \<open>stack\<close> cannot
  be assigned, as that of a frozen Error (\<open>Object.freeze(new Error("boom"))\<close>).
\<close>

definition frozen_errors :: "addr \<Rightarrow> js_error" where
  "frozen_errors a =
     \<lparr>message = ''boom'', stack = Some ''Error: boom\<newline>    at someFetchRequest'',
      stackWritable = False\<rparr>"

definition frozen_free :: "string world" where
  "frozen_free = new_RequestCoalescer frozen_errors"

definition frozen_busy :: "string world" where
  "frozen_busy = snd (requests demo_raws frozen_free)"

definition frozen_failed :: "string world" where
  "frozen_failed = snd (request_settle (Failure (ErrorObj 0)) frozen_busy)"

section \<open>Helper lemmas\<close>

subsection \<open>Strings\<close>

lemma split_nl_nonempty: "split_nl s \<noteq> []"
  by (induction s) (auto split: list.splits)

lemma split_nl_lines: "l \<in> set (split_nl s) \<Longrightarrow> nl \<notin> set l"
  by (induction s arbitrary: l) (auto split: list.splits if_splits)

lemma split_nl_append:
  "nl \<notin> set h \<Longrightarrow> split_nl (h @ nl # t) = h # split_nl t"
  by (induction h) (auto split: list.splits)

lemma restack_lines:
  "split_nl (restack old initial) =
     (case old of None \<Rightarrow> [[]] | Some s \<Rightarrow> take 1 (split_nl s))
     @ split_nl (case initial of None \<Rightarrow> [] | Some t \<Rightarrow> t)"
proof (cases old)
  case None
  then show ?thesis
    using split_nl_append [of "[]"] by (simp add: restack_def join_undef_def)
next
  case (Some s)
  obtain l ls where sp: "split_nl s = l # ls"
    using split_nl_nonempty [of s] by (cases "split_nl s") auto
  then have "nl \<notin> set l" using split_nl_lines [of l s] by simp
  then show ?thesis using Some sp
    by (simp add: restack_def join_undef_def index0_def split_nl_append)
qed

lemma index0_split_nl: "index0 (split_nl s) = Some (hd (split_nl s))"
  using split_nl_nonempty [of s] by (cases "split_nl s") (simp_all add: index0_def)

lemma restack_first_line:
  "index0 (split_nl (restack old initial)) =
     Some (case old of None \<Rightarrow> [] | Some s \<Rightarrow> hd (split_nl s))"
proof (cases old)
  case None
  then show ?thesis by (simp add: restack_lines index0_def)
next
  case (Some s)
  obtain l ls where "split_nl s = l # ls"
    using split_nl_nonempty [of s] by (cases "split_nl s") auto
  then show ?thesis using Some by (simp add: restack_lines index0_def)
qed

lemma restack_restack: "restack (Some (restack old i1)) i2 = restack old i2"
proof -
  have "restack (Some (restack old i1)) i2 =
        join_undef [Some (case old of None \<Rightarrow> [] | Some s \<Rightarrow> hd (split_nl s)), i2]"
    by (simp add: restack_def [of "Some (restack old i1)"] restack_first_line)
  also have "\<dots> = restack old i2"
    by (cases old) (simp_all add: restack_def join_undef_def index0_split_nl)
  finally show ?thesis .
qed

subsection \<open>The resume methods of a continuation\<close>

lemma crr_fields [simp]:
  "lock (Continuation_resumeByReturning c val w) = lock w"
  "continuationQueue (Continuation_resumeByReturning c val w) = continuationQueue w"
  "invocations (Continuation_resumeByReturning c val w) = invocations w"
  "errors (Continuation_resumeByReturning c val w) = errors w"
  "resumed (Continuation_resumeByReturning c val w) = resumed w @ [(c, ByReturning val)]"
  "length (conts (Continuation_resumeByReturning c val w)) = length (conts w)"
  by (simp_all add: Continuation_resumeByReturning_def set_state_def)

lemma crr_conts:
  "conts (Continuation_resumeByReturning c val w) =
     (conts w)[c := (conts w ! c)\<lparr>promiseState := promise_resolve (promiseState (conts w ! c)) val\<rparr>]"
  by (simp add: Continuation_resumeByReturning_def set_state_def)

lemma promise_resolve_idem [simp]:
  "promise_resolve (promise_resolve st val) val' = promise_resolve st val"
  by (cases st; cases val) simp_all

lemma promise_reject_idem [simp]:
  "promise_reject (promise_reject st e) e' = promise_reject st e"
  by (cases st) simp_all

lemma crr_state:
  "i < length (conts w) \<Longrightarrow>
   promiseState (conts (Continuation_resumeByReturning c val w) ! i) =
     (if i = c then promise_resolve (promiseState (conts w ! i)) val
      else promiseState (conts w ! i))"
  by (simp add: crr_conts nth_list_update)

lemma crt_raises:
  "\<not> rewritable w e \<Longrightarrow>
   Continuation_resumeByThrowing c e w =
     Inl (TypeError, w\<lparr>resumed := resumed w @ [(c, ByThrowing e)]\<rparr>)"
  by (cases e) (simp_all add: Continuation_resumeByThrowing_def rewritable_def Let_def)

lemma crt_returns:
  "rewritable w e \<Longrightarrow>
   Continuation_resumeByThrowing c e w = Inr (state_of (Continuation_resumeByThrowing c e w))"
  by (cases e) (simp_all add: Continuation_resumeByThrowing_def rewritable_def state_of_def Let_def)

lemma crt_fields [simp]:
  "lock (state_of (Continuation_resumeByThrowing c e w)) = lock w"
  "continuationQueue (state_of (Continuation_resumeByThrowing c e w)) = continuationQueue w"
  "invocations (state_of (Continuation_resumeByThrowing c e w)) = invocations w"
  "resumed (state_of (Continuation_resumeByThrowing c e w)) = resumed w @ [(c, ByThrowing e)]"
  "length (conts (state_of (Continuation_resumeByThrowing c e w))) = length (conts w)"
  "rewritable (state_of (Continuation_resumeByThrowing c e w)) e' = rewritable w e'"
  by (cases e; simp add: Continuation_resumeByThrowing_def set_state_def state_of_def
      rewritable_def Let_def split: thrown.splits)+

lemma crt_conts:
  "conts (state_of (Continuation_resumeByThrowing c e w)) =
     (if rewritable w e
      then (conts w)[c := (conts w ! c)
             \<lparr>promiseState := promise_reject (promiseState (conts w ! c)) e\<rparr>]
      else conts w)"
  by (cases e) (simp_all add: Continuation_resumeByThrowing_def set_state_def state_of_def
      rewritable_def Let_def)

lemma crt_state:
  "i < length (conts w) \<Longrightarrow> rewritable w e \<Longrightarrow>
   promiseState (conts (state_of (Continuation_resumeByThrowing c e w)) ! i) =
     (if i = c then promise_reject (promiseState (conts w ! i)) e
      else promiseState (conts w ! i))"
  by (simp add: crt_conts nth_list_update)

lemma crt_stack:
  "i < length (conts w) \<Longrightarrow>
   initialCallStack (conts (state_of (Continuation_resumeByThrowing c e w)) ! i) =
     initialCallStack (conts w ! i)"
  by (cases "i = c") (simp_all add: crt_conts)

lemma crt_errors:
  "stackWritable (errors w a) \<Longrightarrow>
   stack (errors (state_of (Continuation_resumeByThrowing c (ErrorObj a) w)) a) =
     Some (restack (stack (errors w a)) (initialCallStack (conts w ! c)))"
  by (simp add: Continuation_resumeByThrowing_def set_state_def state_of_def Let_def)

subsection \<open>The loops over the queue\<close>

lemma fold_crr_fields [simp]:
  "lock (fold (\<lambda>c. Continuation_resumeByReturning c val) q w) = lock w"
  "invocations (fold (\<lambda>c. Continuation_resumeByReturning c val) q w) = invocations w"
  "errors (fold (\<lambda>c. Continuation_resumeByReturning c val) q w) = errors w"
  "length (conts (fold (\<lambda>c. Continuation_resumeByReturning c val) q w)) = length (conts w)"
  "resumed (fold (\<lambda>c. Continuation_resumeByReturning c val) q w) =
     resumed w @ map (\<lambda>c. (c, ByReturning val)) q"
  by (induction q arbitrary: w; simp)+

lemma fold_crr_state:
  "i < length (conts w) \<Longrightarrow>
   promiseState (conts (fold (\<lambda>c. Continuation_resumeByReturning c val) q w) ! i) =
     (if i \<in> set q then promise_resolve (promiseState (conts w ! i)) val
      else promiseState (conts w ! i))"
  by (induction q arbitrary: w) (auto simp: crr_state)

lemma forEach_returns:
  "rewritable w e \<Longrightarrow>
   forEach (\<lambda>c. Continuation_resumeByThrowing c e) q w =
     Inr (fold (\<lambda>c w. state_of (Continuation_resumeByThrowing c e w)) q w)"
proof (induction q arbitrary: w)
  case Nil
  then show ?case by simp
next
  case (Cons c q)
  obtain w1 where r: "Continuation_resumeByThrowing c e w = Inr w1"
    using crt_returns [OF Cons.prems, of c] by (rule that)
  then have s: "state_of (Continuation_resumeByThrowing c e w) = w1"
    by (simp add: state_of_def)
  have "rewritable w1 e"
    using Cons.prems crt_fields(6) [of c e w e] by (simp only: s)
  then show ?case
    using Cons.IH [of w1] r s by simp
qed

lemma forEach_raises:
  "\<not> rewritable w e \<Longrightarrow>
   forEach (\<lambda>c. Continuation_resumeByThrowing c e) (c # q) w =
     Inl (TypeError, w\<lparr>resumed := resumed w @ [(c, ByThrowing e)]\<rparr>)"
  by (simp add: crt_raises)

lemma fold_crt_fields [simp]:
  "lock (fold (\<lambda>c w. state_of (Continuation_resumeByThrowing c e w)) q w) = lock w"
  "invocations (fold (\<lambda>c w. state_of (Continuation_resumeByThrowing c e w)) q w) = invocations w"
  "length (conts (fold (\<lambda>c w. state_of (Continuation_resumeByThrowing c e w)) q w)) =
     length (conts w)"
  "resumed (fold (\<lambda>c w. state_of (Continuation_resumeByThrowing c e w)) q w) =
     resumed w @ map (\<lambda>c. (c, ByThrowing e)) q"
  "rewritable (fold (\<lambda>c w. state_of (Continuation_resumeByThrowing c e w)) q w) e' =
     rewritable w e'"
  by (induction q arbitrary: w; simp)+

lemma fold_crt_state:
  "i < length (conts w) \<Longrightarrow> rewritable w e \<Longrightarrow>
   promiseState (conts (fold (\<lambda>c w. state_of (Continuation_resumeByThrowing c e w)) q w) ! i) =
     (if i \<in> set q then promise_reject (promiseState (conts w ! i)) e
      else promiseState (conts w ! i))"
  by (induction q arbitrary: w) (auto simp: crt_state)

text \<open>
  Every continuation of the queue writes the trace of the one Error object; what is left
  is the first line of the trace before and the creation context of the last of them.
\<close>

lemma fold_crt_errors:
  "q \<noteq> [] \<Longrightarrow> list_all (\<lambda>c. c < length (conts w)) q \<Longrightarrow> stackWritable (errors w a) \<Longrightarrow>
   stack (errors (fold (\<lambda>c w. state_of (Continuation_resumeByThrowing c (ErrorObj a) w)) q w) a) =
     Some (restack (stack (errors w a)) (initialCallStack (conts w ! last q)))"
proof (induction q arbitrary: w)
  case Nil
  then show ?case by simp
next
  case (Cons c q)
  show ?case
  proof (cases "q = []")
    case True
    then show ?thesis using Cons.prems(3) by (simp add: crt_errors)
  next
    case False
    let ?w1 = "state_of (Continuation_resumeByThrowing c (ErrorObj a) w)"
    have all: "list_all (\<lambda>c. c < length (conts ?w1)) q" using Cons.prems(2) by simp
    have wr: "stackWritable (errors ?w1 a)"
      using Cons.prems(3) crt_fields(6) [of c "ErrorObj a" w "ErrorObj a"]
      by (simp add: rewritable_def)
    have lq: "last q < length (conts w)"
      using Cons.prems(2) False by (simp add: list_all_iff)
    show ?thesis
      using Cons.IH [OF False all wr] False lq Cons.prems(3)
      by (simp add: crt_errors crt_stack restack_restack)
  qed
qed

subsection \<open>The segments of \<open>request()\<close>\<close>

lemma request_locked:
  assumes "lock w"
  shows "request raw w =
     (Follower (length (conts w)),
      w\<lparr>conts := conts w @ [\<lparr>promiseState = Pending, initialCallStack = captureStack raw\<rparr>],
        continuationQueue := continuationQueue w @ [length (conts w)]\<rparr>)"
  using assms by (simp add: request_def coalesce_def new_Continuation_def)

lemma requests_locked:
  "lock w \<Longrightarrow> requests raws w = (hs, w') \<Longrightarrow>
     hs = map Follower [length (conts w)..<length (conts w) + length raws]
     \<and> lock w' \<and> invocations w' = invocations w \<and> errors w' = errors w
     \<and> resumed w' = resumed w
     \<and> continuationQueue w' =
         continuationQueue w @ [length (conts w)..<length (conts w) + length raws]
     \<and> conts w' = conts w @
         map (\<lambda>raw. \<lparr>promiseState = Pending, initialCallStack = captureStack raw\<rparr>) raws"
proof (induction raws arbitrary: w hs w')
  case Nil
  then show ?case by simp
next
  case (Cons raw raws)
  let ?w1 = "snd (request raw w)"
  obtain hs2 w2 where r: "requests raws ?w1 = (hs2, w2)" by (cases "requests raws ?w1")
  have l1: "lock ?w1" using Cons.prems(1) by (simp add: request_locked)
  from Cons.prems r have hs: "hs = Follower (length (conts w)) # hs2" and w': "w' = w2"
    by (simp_all add: request_locked split: prod.splits)
  have len: "length (conts ?w1) = Suc (length (conts w))"
    using Cons.prems(1) by (simp add: request_locked)
  have upt: "[length (conts w)..<length (conts w) + length (raw # raws)] =
      length (conts w) # [Suc (length (conts w))..<Suc (length (conts w)) + length raws]"
    by (simp add: upt_conv_Cons del: upt_Suc)
  have c1: "conts ?w1 =
      conts w @ [\<lparr>promiseState = Pending, initialCallStack = captureStack raw\<rparr>]"
    and q1: "continuationQueue ?w1 = continuationQueue w @ [length (conts w)]"
    and o1: "invocations ?w1 = invocations w" "errors ?w1 = errors w" "resumed ?w1 = resumed w"
    using Cons.prems(1) by (simp_all add: request_locked)
  note ih = Cons.IH [OF l1 r, unfolded len c1 q1 o1]
  show ?case unfolding upt hs w' using ih by simp
qed

lemma request_unlocked:
  "\<not> lock w \<Longrightarrow> request raw w = (Leader, w\<lparr>lock := True, invocations := invocations w + 1\<rparr>)"
  by (simp add: request_def)

lemma generation_start:
  assumes "\<not> lock w" and "requests (raw # raws) w = (hs, w1)"
  shows "hs = Leader # map Follower [length (conts w)..<length (conts w) + length raws]"
    and "lock w1" and "invocations w1 = invocations w + 1"
    and "errors w1 = errors w" and "resumed w1 = resumed w"
    and "continuationQueue w1 =
           continuationQueue w @ [length (conts w)..<length (conts w) + length raws]"
    and "conts w1 = conts w @
           map (\<lambda>raw. \<lparr>promiseState = Pending, initialCallStack = captureStack raw\<rparr>) raws"
proof -
  let ?w0 = "w\<lparr>lock := True, invocations := invocations w + 1\<rparr>"
  obtain hs2 where r: "requests raws ?w0 = (hs2, w1)" and hs: "hs = Leader # hs2"
    using assms by (auto simp: request_unlocked split: prod.splits)
  have l0: "lock ?w0" by simp
  note f = requests_locked [OF l0 r]
  show "hs = Leader # map Follower [length (conts w)..<length (conts w) + length raws]"
    using f hs by simp
  show "lock w1" using f by simp
  show "invocations w1 = invocations w + 1" using f by simp
  show "errors w1 = errors w" using f by simp
  show "resumed w1 = resumed w" using f by simp
  show "continuationQueue w1 =
           continuationQueue w @ [length (conts w)..<length (conts w) + length raws]"
    using f by simp
  show "conts w1 = conts w @
           map (\<lambda>raw. \<lparr>promiseState = Pending, initialCallStack = captureStack raw\<rparr>) raws"
    using f by simp
qed

lemma rcrt_returns:
  "rewritable w e \<or> continuationQueue w = [] \<Longrightarrow>
   RequestCoalescer_resumeByThrowing e w =
     Inr ((fold (\<lambda>c w. state_of (Continuation_resumeByThrowing c e w)) (continuationQueue w) w)
            \<lparr>continuationQueue := []\<rparr>)"
  by (auto simp: RequestCoalescer_resumeByThrowing_def forEach_returns)

lemma rcrt_raises:
  "\<not> rewritable w e \<Longrightarrow> continuationQueue w = c # q \<Longrightarrow>
   RequestCoalescer_resumeByThrowing e w =
     Inl (TypeError, w\<lparr>resumed := resumed w @ [(c, ByThrowing e)]\<rparr>)"
  by (simp add: RequestCoalescer_resumeByThrowing_def crt_raises)

lemma settle_raises:
  "\<not> rewritable w e \<Longrightarrow> continuationQueue w = c # q \<Longrightarrow>
   request_settle (Failure e) w =
     (Raised TypeError, w\<lparr>resumed := resumed w @ [(c, ByThrowing e)], lock := False\<rparr>)"
  by (simp add: rcrt_raises)

text \<open>What the leader's second segment does whatever the outcome.\<close>

lemma settle_always:
  "\<not> lock (snd (request_settle out w))"
  "invocations (snd (request_settle out w)) = invocations w"
  "length (conts (snd (request_settle out w))) = length (conts w)"
proof -
  have "\<not> lock (snd (request_settle out w))
      \<and> invocations (snd (request_settle out w)) = invocations w
      \<and> length (conts (snd (request_settle out w))) = length (conts w)"
  proof (cases out)
    case (Success p)
    then show ?thesis by (simp add: RequestCoalescer_resumeByReturning_def)
  next
    case (Failure e)
    show ?thesis
    proof (cases "rewritable w e \<or> continuationQueue w = []")
      case True
      then show ?thesis using Failure by (simp add: rcrt_returns)
    next
      case False
      then obtain c q where "continuationQueue w = c # q"
        by (cases "continuationQueue w") auto
      with False have "RequestCoalescer_resumeByThrowing e w =
          Inl (TypeError, w\<lparr>resumed := resumed w @ [(c, ByThrowing e)]\<rparr>)"
        by (simp add: rcrt_raises)
      then show ?thesis using Failure by simp
    qed
  qed
  then show "\<not> lock (snd (request_settle out w))"
    and "invocations (snd (request_settle out w)) = invocations w"
    and "length (conts (snd (request_settle out w))) = length (conts w)"
    by simp_all
qed

text \<open>What it does when no exception is raised in it.\<close>

lemma settle_fields:
  "settles w out \<Longrightarrow> request_settle out w = (r, w') \<Longrightarrow>
     continuationQueue w' = []
     \<and> r = delivered_of out
     \<and> resumed w' = resumed w @ map (\<lambda>c. (c, resumption_of out)) (continuationQueue w)"
  by (cases out)
     (auto simp: RequestCoalescer_resumeByReturning_def rcrt_returns settles_def
        delivered_of_def resumption_of_def)

lemma settle_state:
  "settles w out \<Longrightarrow> request_settle out w = (r, w') \<Longrightarrow> c \<in> set (continuationQueue w) \<Longrightarrow>
   c < length (conts w) \<Longrightarrow> promiseState (conts w ! c) = Pending \<Longrightarrow>
     observe (promiseState (conts w' ! c)) = delivered_of out"
  by (cases out)
     (auto simp: RequestCoalescer_resumeByReturning_def rcrt_returns settles_def
        delivered_of_def observe_def fold_crr_state fold_crt_state)

lemma settle_failure_stack:
  assumes "wf_world w" and "continuationQueue w \<noteq> []" and "stackWritable (errors w a)"
  shows "stack (errors (snd (request_settle (Failure (ErrorObj a)) w)) a) =
     Some (restack (stack (errors w a))
                   (initialCallStack (conts w ! last (continuationQueue w))))"
proof -
  have "list_all (\<lambda>c. c < length (conts w)) (continuationQueue w)"
    using assms(1) by (simp add: wf_world_def list_all_iff)
  moreover have "rewritable w (ErrorObj a)" using assms(3) by (simp add: rewritable_def)
  ultimately show ?thesis
    using fold_crt_errors [OF assms(2) _ assms(3)] by (simp add: rcrt_returns)
qed

subsection \<open>Generations in which no exception is raised\<close>

lemma generation_shared_outcome:
  assumes "\<not> lock w" and "requests (raw # raws) w = (hs, w1)"
    and "settles w1 out" and "request_settle out w1 = (r, w2)"
  shows "\<forall>h \<in> set hs. delivers w2 r h = delivered_of out"
proof
  fix h assume h: "h \<in> set hs"
  note g = generation_start [OF assms(1,2)]
  let ?n = "length (conts w)"
  show "delivers w2 r h = delivered_of out"
  proof (cases h)
    case Leader
    then show ?thesis using settle_fields [OF assms(3,4)] by (simp add: delivers_def)
  next
    case (Follower c)
    with h g(1) have c: "?n \<le> c" "c < ?n + length raws" by auto
    have "c \<in> set (continuationQueue w1)" using c g(6) by simp
    moreover have "c < length (conts w1)" using c g(7) by simp
    moreover have "promiseState (conts w1 ! c) = Pending"
      using c g(7) by (simp add: nth_append)
    ultimately show ?thesis using settle_state [OF assms(3,4)] Follower
      by (simp add: delivers_def)
  qed
qed

lemma generation_drained_in_order:
  assumes "wf_world w" and "settles w out" and "request_settle out w = (r, w')"
  shows "continuationQueue w' = []"
    and "drop (length (resumed w)) (resumed w') =
           map (\<lambda>c. (c, resumption_of out)) (continuationQueue w)"
    and "\<forall>c \<in> set (continuationQueue w).
           observe (promiseState (conts w' ! c)) = delivered_of out"
proof -
  note f = settle_fields [OF assms(2,3)]
  show "continuationQueue w' = []" using f by simp
  show "drop (length (resumed w)) (resumed w') =
           map (\<lambda>c. (c, resumption_of out)) (continuationQueue w)"
    using f by simp
  show "\<forall>c \<in> set (continuationQueue w).
           observe (promiseState (conts w' ! c)) = delivered_of out"
    using assms(1) settle_state [OF assms(2,3)]
    by (auto simp: wf_world_def list_all_iff)
qed

subsection \<open>The states the coalescer can reach\<close>

lemma wf_new: "wf_world (new_RequestCoalescer errs)"
  by (simp add: new_RequestCoalescer_def wf_world_def)

lemma wf_request: "wf_world w \<Longrightarrow> wf_world (snd (request raw w))"
  by (auto simp: wf_world_def request_def coalesce_def new_Continuation_def list_all_iff
      nth_append)

lemma wf_resumeByReturning: "wf_world w \<Longrightarrow> wf_world (RequestCoalescer_resumeByReturning p w)"
  by (simp add: wf_world_def RequestCoalescer_resumeByReturning_def)

lemma wf_resumeByThrowing:
  "wf_world w \<Longrightarrow> wf_world (state_of (RequestCoalescer_resumeByThrowing e w))"
proof (cases "rewritable w e \<or> continuationQueue w = []")
  case True
  then show ?thesis by (simp add: rcrt_returns state_of_def wf_world_def)
next
  case False
  then obtain c q where "continuationQueue w = c # q"
    by (cases "continuationQueue w") auto
  with False have "RequestCoalescer_resumeByThrowing e w =
      Inl (TypeError, w\<lparr>resumed := resumed w @ [(c, ByThrowing e)]\<rparr>)"
    by (simp add: rcrt_raises)
  moreover assume "wf_world w"
  ultimately show ?thesis
    by (simp add: state_of_def wf_world_def)
qed

lemma wf_request_settle: "wf_world w \<Longrightarrow> wf_world (snd (request_settle out w))"
proof (cases out)
  case (Success p)
  then show ?thesis by (simp add: wf_world_def RequestCoalescer_resumeByReturning_def)
next
  case (Failure e)
  assume wf: "wf_world w"
  show ?thesis
  proof (cases "rewritable w e \<or> continuationQueue w = []")
    case True
    then show ?thesis using Failure by (simp add: rcrt_returns wf_world_def)
  next
    case False
    then obtain c q where "continuationQueue w = c # q"
      by (cases "continuationQueue w") auto
    with False have "RequestCoalescer_resumeByThrowing e w =
        Inl (TypeError, w\<lparr>resumed := resumed w @ [(c, ByThrowing e)]\<rparr>)"
      by (simp add: rcrt_raises)
    then show ?thesis using Failure wf by (simp add: wf_world_def)
  qed
qed

subsection \<open>The demonstrations, evaluated\<close>

lemma demo_busy_eq:
  "demo_busy =
     \<lparr>lock = True, continuationQueue = [0, 1],
      conts = [\<lparr>promiseState = Pending,
                initialCallStack = Some ''    at coalesce\<newline>    at thread2''\<rparr>,
               \<lparr>promiseState = Pending,
                initialCallStack = Some ''    at coalesce\<newline>    at thread3''\<rparr>],
      errors = demo_errors, invocations = 1, resumed = []\<rparr>"
  by (simp add: demo_busy_def demo_raws_def demo_free_def new_RequestCoalescer_def
      request_def coalesce_def new_Continuation_def captureStack_def nl_def)

lemma demo_free_unlocked: "\<not> lock demo_free" and demo_free_wf: "wf_world demo_free"
  by (simp_all add: demo_free_def new_RequestCoalescer_def wf_world_def)

lemma demo_requests:
  "requests (hd demo_raws # tl demo_raws) demo_free = ([Leader, Follower 0, Follower 1], demo_busy)"
  by (simp add: demo_busy_def demo_raws_def demo_free_def new_RequestCoalescer_def
      request_def coalesce_def new_Continuation_def)

lemma demo_rewritable: "rewritable demo_busy (ErrorObj 0)"
  by (simp add: rewritable_def demo_busy_eq demo_errors_def)

lemma demo_settle:
  "request_settle (Failure (ErrorObj 0)) demo_busy = (Threw (ErrorObj 0), demo_failed)"
  using demo_rewritable by (simp add: demo_failed_def rcrt_returns)

lemma frozen_busy_eq:
  "frozen_busy =
     \<lparr>lock = True, continuationQueue = [0, 1],
      conts = [\<lparr>promiseState = Pending,
                initialCallStack = Some ''    at coalesce\<newline>    at thread2''\<rparr>,
               \<lparr>promiseState = Pending,
                initialCallStack = Some ''    at coalesce\<newline>    at thread3''\<rparr>],
      errors = frozen_errors, invocations = 1, resumed = []\<rparr>"
  by (simp add: frozen_busy_def demo_raws_def frozen_free_def new_RequestCoalescer_def
      request_def coalesce_def new_Continuation_def captureStack_def nl_def)

lemma frozen_free_unlocked: "\<not> lock frozen_free"
  by (simp add: frozen_free_def new_RequestCoalescer_def)

lemma frozen_requests:
  "requests (hd demo_raws # tl demo_raws) frozen_free
     = ([Leader, Follower 0, Follower 1], frozen_busy)"
  by (simp add: frozen_busy_def demo_raws_def frozen_free_def new_RequestCoalescer_def
      request_def coalesce_def new_Continuation_def)

lemma frozen_settle:
  "request_settle (Failure (ErrorObj 0)) frozen_busy = (Raised TypeError, frozen_failed)"
  by (simp add: frozen_failed_def frozen_busy_eq RequestCoalescer_resumeByThrowing_def
      Continuation_resumeByThrowing_def frozen_errors_def)

lemma frozen_failed_eq:
  "frozen_failed =
     \<lparr>lock = False, continuationQueue = [0, 1],
      conts = [\<lparr>promiseState = Pending,
                initialCallStack = Some ''    at coalesce\<newline>    at thread2''\<rparr>,
               \<lparr>promiseState = Pending,
                initialCallStack = Some ''    at coalesce\<newline>    at thread3''\<rparr>],
      errors = frozen_errors, invocations = 1, resumed = [(0, ByThrowing (ErrorObj 0))]\<rparr>"
  by (simp add: frozen_failed_def frozen_busy_eq RequestCoalescer_resumeByThrowing_def
      Continuation_resumeByThrowing_def frozen_errors_def)

section \<open>Properties of the coalescer\<close>

text \<open>
  C1. Calls of \<open>request()\<close> that all arrive before the first one's operation has
  completed, on a coalescer that is free: the first call is the leader and invokes the
  operation, every later call gets a continuation at the end of the queue and invokes
  nothing, and the leader's completion invokes nothing either. The operation is invoked
  exactly once in the generation.
\<close>

theorem one_invocation_per_generation:
  assumes "\<not> lock w" and "requests (raw # raws) w = (hs, w1)"
  shows "invocations w1 = invocations w + 1
     \<and> hs = Leader # map Follower [length (conts w)..<length (conts w) + length raws]
     \<and> continuationQueue w1 =
         continuationQueue w @ [length (conts w)..<length (conts w) + length raws]
     \<and> lock w1
     \<and> invocations (snd (request_settle out w1)) = invocations w + 1"
  using generation_start [OF assms] settle_always(2) [of out w1] by simp

theorem one_invocation_per_generation_witness:
  "\<not> lock demo_free
   \<and> requests (hd demo_raws # tl demo_raws) demo_free
       = ([Leader, Follower 0, Follower 1], demo_busy)
   \<and> invocations demo_free = 0
   \<and> invocations demo_busy = 1
   \<and> continuationQueue demo_busy = [0, 1]
   \<and> invocations (snd (request_settle (Success ''{id:1}'') demo_busy)) = 1"
proof -
  note t = one_invocation_per_generation [OF demo_free_unlocked demo_requests,
      of "Success ''{id:1}''"]
  have i0: "invocations demo_free = 0"
    by (simp add: demo_free_def new_RequestCoalescer_def)
  have b: "invocations demo_busy = 1" "continuationQueue demo_busy = [0, 1]"
    by (simp_all add: demo_busy_eq)
  from t i0 have "invocations (snd (request_settle (Success ''{id:1}'') demo_busy)) = 1"
    by simp
  then show ?thesis
    by (intro conjI demo_free_unlocked demo_requests i0 b)
qed

text \<open>
  C2. Every call of a generation should deliver the outcome of the one operation. It does
  not when the operation fails with an Error whose \<open>stack\<close> cannot be assigned: the
  first follower's \<open>resumeByThrowing\<close> raises a TypeError inside the leader's
  \<open>catch\<close> block, so the leader's call rejects with the TypeError and not with the
  error of the operation, and neither follower is settled.
\<close>

theorem frozen_error_not_shared:
  "requests (hd demo_raws # tl demo_raws) frozen_free
     = ([Leader, Follower 0, Follower 1], frozen_busy)
   \<and> \<not> stackWritable (errors frozen_busy 0)
   \<and> request_settle (Failure (ErrorObj 0)) frozen_busy = (Raised TypeError, frozen_failed)
   \<and> delivers frozen_failed (Raised TypeError) Leader \<noteq> Threw (ErrorObj 0)
   \<and> delivers frozen_failed (Raised TypeError) (Follower 0) = Unsettled
   \<and> delivers frozen_failed (Raised TypeError) (Follower 1) = Unsettled"
proof -
  have a: "\<not> stackWritable (errors frozen_busy 0)"
    by (simp add: frozen_busy_eq frozen_errors_def)
  have b: "delivers frozen_failed (Raised TypeError) Leader \<noteq> Threw (ErrorObj 0)"
    by (simp add: delivers_def)
  have c: "delivers frozen_failed (Raised TypeError) (Follower 0) = Unsettled"
    "delivers frozen_failed (Raised TypeError) (Follower 1) = Unsettled"
    by (simp_all add: delivers_def observe_def frozen_failed_eq)
  show ?thesis by (intro conjI frozen_requests frozen_settle a b c)
qed

text \<open>
  C3. The leader's completion should resume every continuation of the queue and empty the
  queue. After the failure with the frozen Error the queue still holds both followers,
  both are pending, and the lock is free. They are resumed by the completion of the next
  generation, with its outcome.
\<close>

theorem frozen_error_queue_kept:
  "continuationQueue frozen_busy = [0, 1]
   \<and> fst (request_settle (Failure (ErrorObj 0)) frozen_busy) = Raised TypeError
   \<and> continuationQueue frozen_failed = [0, 1]
   \<and> map (\<lambda>c. promiseState (conts frozen_failed ! c)) [0, 1] = [Pending, Pending]
   \<and> \<not> lock frozen_failed
   \<and> fst (request None frozen_failed) = Leader
   \<and> map (\<lambda>c. promiseState
              (conts (snd (request_settle (Success ''{id:2}'') (snd (request None frozen_failed))))
                ! c)) [0, 1]
       = [Fulfilled ''{id:2}'', Fulfilled ''{id:2}'']"
proof -
  have a: "continuationQueue frozen_busy = [0, 1]" by (simp add: frozen_busy_eq)
  have b: "fst (request_settle (Failure (ErrorObj 0)) frozen_busy) = Raised TypeError"
    by (simp only: frozen_settle fst_conv)
  have c: "continuationQueue frozen_failed = [0, 1]"
    "map (\<lambda>c. promiseState (conts frozen_failed ! c)) [0, 1] = [Pending, Pending]"
    "\<not> lock frozen_failed"
    by (simp_all add: frozen_failed_eq)
  have d: "fst (request None frozen_failed) = Leader"
    using c(3) by (simp add: request_unlocked)
  have e: "map (\<lambda>c. promiseState
              (conts (snd (request_settle (Success ''{id:2}'') (snd (request None frozen_failed))))
                ! c)) [0, 1]
       = [Fulfilled ''{id:2}'', Fulfilled ''{id:2}'']"
    by (simp add: frozen_failed_eq request_def RequestCoalescer_resumeByReturning_def
        Continuation_resumeByReturning_def set_state_def)
  show ?thesis by (intro conjI a b c d e)
qed

text \<open>
  C4. The lock is free after the leader's completion, after a failure as after a success,
  so the next call of \<open>request()\<close> is a leader again and invokes the operation.
\<close>

theorem lock_released_after_settlement:
  assumes "request_settle out w = (r, w1)" and "request raw w1 = (h, w2)"
  shows "\<not> lock w1 \<and> h = Leader \<and> lock w2 \<and> invocations w2 = invocations w + 1"
proof -
  have w1: "w1 = snd (request_settle out w)" using assms(1) by simp
  have "\<not> lock w1" and "invocations w1 = invocations w"
    unfolding w1 by (rule settle_always)+
  then show ?thesis using assms(2) by (auto simp: request_unlocked)
qed

theorem lock_released_after_settlement_witness:
  "\<not> lock demo_failed
   \<and> fst (request None demo_failed) = Leader
   \<and> invocations (snd (request None demo_failed)) = 2"
proof -
  note t = lock_released_after_settlement [OF demo_settle surjective_pairing, of None]
  have "invocations demo_busy = 1" by (simp add: demo_busy_eq)
  with t show ?thesis by simp
qed

text \<open>
  C5. After a failure with an Error object, the leader and every follower reject with that
  one object, and each continuation's \<open>resumeByThrowing\<close> has written its own creation
  trace into the object's \<open>stack\<close>, over what the continuation before it had written.
  In the demonstration the first follower (created in thread 2) rejects with an error whose
  trace names thread 3, not thread 2.
\<close>

theorem last_follower_trace_wins:
  "delivers demo_failed (Threw (ErrorObj 0)) (Follower 0) = Threw (ErrorObj 0)
   \<and> delivers demo_failed (Threw (ErrorObj 0)) (Follower 1) = Threw (ErrorObj 0)
   \<and> initialCallStack (conts demo_failed ! 0) = Some ''    at coalesce\<newline>    at thread2''
   \<and> initialCallStack (conts demo_failed ! 1) = Some ''    at coalesce\<newline>    at thread3''
   \<and> stack (errors demo_failed 0) = Some ''Error: boom\<newline>    at coalesce\<newline>    at thread3''
   \<and> ''    at thread2'' \<notin> set (split_nl ''Error: boom\<newline>    at coalesce\<newline>    at thread3'')"
  by (simp add: demo_failed_def demo_busy_eq RequestCoalescer_resumeByThrowing_def
      Continuation_resumeByThrowing_def set_state_def restack_def join_undef_def index0_def
      nl_def demo_errors_def delivers_def observe_def)

text \<open>
  C6, as stated: \<open>resumeByThrowing\<close> appends the continuation's creation context to
  the error's trace, which then shows where the error originated. It does not: on the first
  follower of the demonstration the frame \<open>at someFetchRequest\<close> of the error's trace is
  gone afterwards.
\<close>

theorem resumeByThrowing_appends_counterexample:
  "stack (errors (state_of (Continuation_resumeByThrowing 0 (ErrorObj 0) demo_busy)) 0)
     = Some ''Error: boom\<newline>    at coalesce\<newline>    at thread2''
   \<and> stack (errors demo_busy 0) = Some ''Error: boom\<newline>    at someFetchRequest''
   \<and> initialCallStack (conts demo_busy ! 0) = Some ''    at coalesce\<newline>    at thread2''
   \<and> stack (errors (state_of (Continuation_resumeByThrowing 0 (ErrorObj 0) demo_busy)) 0)
     \<noteq> Some (''Error: boom\<newline>    at someFetchRequest'' @ nl # ''    at coalesce\<newline>    at thread2'')
   \<and> ''    at someFetchRequest''
     \<notin> set (split_nl ''Error: boom\<newline>    at coalesce\<newline>    at thread2'')"
  by (simp add: demo_busy_eq Continuation_resumeByThrowing_def set_state_def restack_def
      join_undef_def index0_def nl_def demo_errors_def state_of_def)

text \<open>
  C6, amended. For every continuation, pending or settled, and every Error object whose
  \<open>stack\<close> can be assigned, \<open>resumeByThrowing\<close> returns normally and replaces the
  object's trace: its lines are then the first line of the previous trace (an empty line if
  there was none) followed by the lines of the continuation's creation context. The later
  lines of the previous trace are dropped; the message and every other Error object are
  left as they were. The object is handed to the continuation's reject function, so that a
  pending continuation rejects with it.
\<close>

theorem resumeByThrowing_error_restacks:
  assumes "c < length (conts w)" and "stackWritable (errors w a)"
    and "w' = state_of (Continuation_resumeByThrowing c (ErrorObj a) w)"
  shows "Continuation_resumeByThrowing c (ErrorObj a) w = Inr w'
     \<and> map_option split_nl (stack (errors w' a)) =
         Some ((case stack (errors w a) of None \<Rightarrow> [[]] | Some s \<Rightarrow> take 1 (split_nl s))
               @ split_nl (case initialCallStack (conts w ! c) of None \<Rightarrow> [] | Some t \<Rightarrow> t))
     \<and> message (errors w' a) = message (errors w a)
     \<and> errors w' = (errors w)(a := (errors w a)\<lparr>stack := stack (errors w' a)\<rparr>)
     \<and> conts w' = (conts w)[c := (conts w ! c)
           \<lparr>promiseState := promise_reject (promiseState (conts w ! c)) (ErrorObj a)\<rparr>]
     \<and> (promiseState (conts w ! c) = Pending
          \<longrightarrow> observe (promiseState (conts w' ! c)) = Threw (ErrorObj a))"
  using assms
  by (simp add: Continuation_resumeByThrowing_def set_state_def observe_def restack_lines
      state_of_def)

theorem resumeByThrowing_error_restacks_witness:
  "0 < length (conts demo_busy) \<and> stackWritable (errors demo_busy 0)
   \<and> promiseState (conts demo_busy ! 0) = Pending
   \<and> stack (errors demo_busy 0) = Some ''Error: boom\<newline>    at someFetchRequest''
   \<and> observe (promiseState
        (conts (state_of (Continuation_resumeByThrowing 0 (ErrorObj 0) demo_busy)) ! 0))
     = Threw (ErrorObj 0)
   \<and> map_option split_nl
        (stack (errors (state_of (Continuation_resumeByThrowing 0 (ErrorObj 0) demo_busy)) 0))
     = Some [''Error: boom'', ''    at coalesce'', ''    at thread2'']"
proof -
  have h: "0 < length (conts demo_busy)" "stackWritable (errors demo_busy 0)"
    "promiseState (conts demo_busy ! 0) = Pending"
    and st: "stack (errors demo_busy 0) = Some ''Error: boom\<newline>    at someFetchRequest''"
    and ini: "initialCallStack (conts demo_busy ! 0)
        = Some ''    at coalesce\<newline>    at thread2''"
    by (simp_all add: demo_busy_eq demo_errors_def)
  note t = resumeByThrowing_error_restacks [OF h(1,2) refl]
  from t h(3) have o: "observe (promiseState
        (conts (state_of (Continuation_resumeByThrowing 0 (ErrorObj 0) demo_busy)) ! 0))
     = Threw (ErrorObj 0)"
    by blast
  from t have l: "map_option split_nl
        (stack (errors (state_of (Continuation_resumeByThrowing 0 (ErrorObj 0) demo_busy)) 0))
     = Some [''Error: boom'', ''    at coalesce'', ''    at thread2'']"
    unfolding st ini by (simp add: nl_def)
  show ?thesis by (intro conjI h st o l)
qed

text \<open>
  C7. The leader's completion should call the resume methods of the followers in the
  order of their calls. After the failure with the frozen Error only the first follower's
  method has been called, which raised and rejected nothing; the second follower's method
  is not called, and both continuations are left pending.
\<close>

theorem frozen_error_followers_not_notified:
  "tl (fst (requests (hd demo_raws # tl demo_raws) frozen_free)) = [Follower 0, Follower 1]
   \<and> resumed frozen_busy = []
   \<and> resumed frozen_failed = [(0, ByThrowing (ErrorObj 0))]
   \<and> Continuation_resumeByThrowing 0 (ErrorObj 0) frozen_busy
       = Inl (TypeError, frozen_busy\<lparr>resumed := [(0, ByThrowing (ErrorObj 0))]\<rparr>)
   \<and> conts frozen_failed = conts frozen_busy
   \<and> observe (promiseState (conts frozen_failed ! 0)) = Unsettled
   \<and> observe (promiseState (conts frozen_failed ! 1)) = Unsettled"
proof -
  have a: "tl (fst (requests (hd demo_raws # tl demo_raws) frozen_free))
      = [Follower 0, Follower 1]"
    by (simp only: frozen_requests fst_conv list.sel)
  have b: "resumed frozen_busy = []" by (simp add: frozen_busy_eq)
  have c: "resumed frozen_failed = [(0, ByThrowing (ErrorObj 0))]"
    by (simp add: frozen_failed_eq)
  have "\<not> rewritable frozen_busy (ErrorObj 0)"
    by (simp add: rewritable_def frozen_busy_eq frozen_errors_def)
  then have d: "Continuation_resumeByThrowing 0 (ErrorObj 0) frozen_busy
       = Inl (TypeError, frozen_busy\<lparr>resumed := [(0, ByThrowing (ErrorObj 0))]\<rparr>)"
    using b by (simp add: crt_raises)
  have e: "conts frozen_failed = conts frozen_busy"
    by (simp add: frozen_failed_eq frozen_busy_eq)
  have f: "observe (promiseState (conts frozen_failed ! 0)) = Unsettled"
    "observe (promiseState (conts frozen_failed ! 1)) = Unsettled"
    by (simp_all add: frozen_failed_eq observe_def)
  show ?thesis by (intro conjI a b c d e f)
qed

text \<open>
  C8. A continuation settled by \<open>resumeByReturning(v)\<close> is left as it is by a second
  \<open>resumeByReturning\<close>, whatever its argument (a plain value or a promise-like object):
  it still delivers \<open>v\<close>. The resolve function of a promise raises no exception, so the
  embedding has no error result here.
\<close>

theorem resumeByReturning_twice:
  assumes "c < length (conts w)" and "promiseState (conts w ! c) = Pending"
    and "w1 = Continuation_resumeByReturning c (Plain v) w"
    and "w2 = Continuation_resumeByReturning c val w1"
  shows "promiseState (conts w1 ! c) = Fulfilled v
     \<and> conts w2 = conts w1
     \<and> errors w2 = errors w1 \<and> lock w2 = lock w1
     \<and> continuationQueue w2 = continuationQueue w1
     \<and> observe (promiseState (conts w2 ! c)) = Returned v"
proof -
  have s1: "promiseState (conts w1 ! c) = Fulfilled v"
    using assms(1,2,3) by (simp add: crr_state)
  have e: "(conts w1 ! c)\<lparr>promiseState := Fulfilled v\<rparr> = conts w1 ! c"
    using s1 by (cases "conts w1 ! c") simp
  have "conts w2 = (conts w1)[c := (conts w1 ! c)\<lparr>promiseState := Fulfilled v\<rparr>]"
    using s1 assms(4) by (simp add: crr_conts)
  also have "\<dots> = (conts w1)[c := conts w1 ! c]" by (simp only: e)
  also have "\<dots> = conts w1" by (rule list_update_id)
  finally have c2: "conts w2 = conts w1" .
  show ?thesis using s1 c2 assms(4) by (simp add: observe_def)
qed

theorem resumeByReturning_twice_witness:
  "0 < length (conts demo_busy) \<and> promiseState (conts demo_busy ! 0) = Pending
   \<and> promiseState (conts (Continuation_resumeByReturning 0 (Plain ''first'') demo_busy) ! 0)
     = Fulfilled ''first''
   \<and> observe (promiseState (conts (Continuation_resumeByReturning 0 (Plain ''second'')
        (Continuation_resumeByReturning 0 (Plain ''first'') demo_busy)) ! 0)) = Returned ''first''
   \<and> observe (promiseState (conts (Continuation_resumeByReturning 0 (Thenable 7)
        (Continuation_resumeByReturning 0 (Plain ''first'') demo_busy)) ! 0)) = Returned ''first''"
  using resumeByReturning_twice [of 0 demo_busy _ "''first''" _ "Plain ''second''", OF _ _ refl refl]
    resumeByReturning_twice [of 0 demo_busy _ "''first''" _ "Thenable 7", OF _ _ refl refl]
  by (simp add: demo_busy_eq observe_def)

text \<open>
  C9. A call of \<open>request()\<close> while the lock is held leaves the lock held, puts one
  new pending continuation at the end of the queue, invokes nothing and changes neither
  the other continuations, nor the Error objects, nor the history.
\<close>

theorem request_while_locked:
  assumes "lock w" and "request raw w = (h, w')"
  shows "h = Follower (length (conts w))
     \<and> lock w'
     \<and> continuationQueue w' = continuationQueue w @ [length (conts w)]
     \<and> conts w' = conts w @ [\<lparr>promiseState = Pending, initialCallStack = captureStack raw\<rparr>]
     \<and> invocations w' = invocations w
     \<and> errors w' = errors w
     \<and> resumed w' = resumed w"
  using assms by (auto simp: request_locked)

theorem request_while_locked_witness:
  "lock demo_busy
   \<and> fst (request None demo_busy) = Follower 2
   \<and> continuationQueue (snd (request None demo_busy)) = [0, 1, 2]
   \<and> invocations (snd (request None demo_busy)) = 1"
  using request_while_locked [of demo_busy None "fst (request None demo_busy)"
      "snd (request None demo_busy)"]
  by (simp add: demo_busy_eq)

text \<open>
  C10. \<open>resumeByThrowing\<close> with a value that is not an Error object returns normally,
  hands that very value to the reject function and writes to no Error object: a pending
  continuation then rejects with exactly that value.
\<close>

theorem resumeByThrowing_non_error:
  assumes "c < length (conts w)"
    and "w' = state_of (Continuation_resumeByThrowing c (NonError v) w)"
  shows "Continuation_resumeByThrowing c (NonError v) w = Inr w'
     \<and> errors w' = errors w
     \<and> conts w' = (conts w)[c := (conts w ! c)
           \<lparr>promiseState := promise_reject (promiseState (conts w ! c)) (NonError v)\<rparr>]
     \<and> (promiseState (conts w ! c) = Pending
          \<longrightarrow> observe (promiseState (conts w' ! c)) = Threw (NonError v))
     \<and> lock w' = lock w \<and> continuationQueue w' = continuationQueue w
     \<and> invocations w' = invocations w"
  using assms
  by (simp add: Continuation_resumeByThrowing_def set_state_def observe_def state_of_def)

theorem resumeByThrowing_non_error_witness:
  "0 < length (conts demo_busy)
   \<and> errors (state_of (Continuation_resumeByThrowing 0 (NonError ''timeout'') demo_busy))
       = demo_errors
   \<and> promiseState (conts demo_busy ! 0) = Pending
   \<and> observe (promiseState
        (conts (state_of (Continuation_resumeByThrowing 0 (NonError ''timeout'') demo_busy)) ! 0))
       = Threw (NonError ''timeout'')"
  using resumeByThrowing_non_error [of 0 demo_busy _ "''timeout''", OF _ refl]
  by (simp add: demo_busy_eq observe_def)

end
